theory Spec2Isabelle
  imports Main "HOL-Library.AList"
begin

section \<open>The vocabulary sender: data model\<close>

text \<open>
  The program is the single script \<^verbatim>\<open>vocab_sender.py\<close>. Python strings are modelled as
  \<^typ>\<open>string\<close> holding their UTF-8 encoding, so that a character outside ASCII is the
  sequence of its bytes; the substring relation on the encodings is the substring relation
  on the code points. Python integers are \<^typ>\<open>int\<close>. A Python dictionary whose order
  of keys is kept is an association list, read with \<^const>\<open>map_of\<close> and written with
  \<^const>\<open>AList.update\<close> (replace in place, or append a new key at the end).
\<close>

datatype error = ValueError | KeyError | URLError

text \<open>A row of the CSV file as \<^verbatim>\<open>csv.DictReader\<close> yields it: a value is \<open>None\<close> when
  the line has fewer fields than the header.\<close>

type_synonym row = "(string \<times> string option) list"

text \<open>The dictionary kept in \<^verbatim>\<open>state.json\<close>. A key that the file lacks is \<open>None\<close> for
  \<open>used\<close> and \<open>sent_hours\<close>; \<open>last_sent\<close> is \<open>None\<close> for JSON null.\<close>

record state =
  st_used :: "int list option"
  st_last_sent :: "string option"
  st_sent_hours :: "(string \<times> int list) list option"

text \<open>
  Everything a run reads from outside: the environment variables (lines 22-29), the clock
  readings of \<^verbatim>\<open>schedule_allows_sending\<close>, whether each backend has its credentials and
  whether its HTTP call returns or raises, the entropy behind \<^verbatim>\<open>random.sample\<close>, and the
  contents of the two files. \<open>zone_date\<close> and \<open>zone_hour\<close> are the date and hour of
  \<^verbatim>\<open>now\<close> of lines 36-37 (the clock of the zone \<^verbatim>\<open>TZ\<close>, or the local clock without
  \<^verbatim>\<open>zoneinfo\<close>); \<open>local_today\<close> is \<^verbatim>\<open>date.today()\<close> in ISO form, read once per run.

  The two builtins that lines 33 and 41 apply to the configuration string belong to the
  interpreter, not to the script, and what they do depends on its version (the table of
  white space, the table of decimal digits, the bound on the number of digits). They are
  part of the outside: \<open>py_strip\<close> is \<^verbatim>\<open>str.strip\<close> and \<open>py_int\<close> is \<^verbatim>\<open>int\<close> on a string,
  with \<open>None\<close> for \<^verbatim>\<open>ValueError\<close>. The theorems about the guard hold for whatever these
  two functions are; only the literal cases of claim C1, which name strings, assume how
  they act on short strings of ASCII characters.
\<close>

record world =
  N_WORDS :: int
  TARGET_HOURS :: string
  FORCE_SEND :: bool
  utc_hour :: int
  local_today :: string
  zone_date :: string
  zone_hour :: int
  telegram_configured :: bool
  telegram_up :: bool
  twilio_configured :: bool
  twilio_up :: bool
  entropy :: "nat \<Rightarrow> nat"
  csv_rows :: "row list"
  state_file :: "state option"
  py_strip :: "string \<Rightarrow> string"
  py_int :: "string \<Rightarrow> int option"

text \<open>What a run does to the outside, in order: every call of a backend, which either skips
  for want of credentials or makes its HTTP request, and the write of the state file.
  Console output is not recorded, and reading the files and the zone database is taken to
  succeed.\<close>

datatype event =
    Telegram_skipped
  | Telegram_request string
  | Twilio_skipped
  | Twilio_request string
  | State_saved state

text \<open>How \<^verbatim>\<open>main\<close> ends: the \<^verbatim>\<open>return\<close> of line 126, the one of line 130,
  \<^verbatim>\<open>sys.exit(1)\<close> of line 135, an exception nobody catches, or the end of the function.\<close>

datatype outcome =
    Blocked_schedule
  | Blocked_duplicate
  | Exit_too_small
  | Crashed error
  | Done

fun exit_code :: "outcome \<Rightarrow> int" where
  "exit_code Blocked_schedule = 0"
| "exit_code Blocked_duplicate = 0"
| "exit_code Exit_too_small = 1"
| "exit_code (Crashed e) = 1"
| "exit_code Done = 0"

section \<open>Strings\<close>

text \<open>
  What the two builtins do on a string of ASCII characters, for the runs that the
  theorems are tried on; those runs apply them to such strings only. The white space of
  \<^verbatim>\<open>str.strip()\<close> among the ASCII characters:
\<close>

definition ascii_space :: "char \<Rightarrow> bool" where
  "ascii_space c = (let k = (of_char c :: nat) in (9 \<le> k \<and> k \<le> 13) \<or> (28 \<le> k \<and> k \<le> 32))"

definition ascii_strip :: "string \<Rightarrow> string" where
  "ascii_strip s = rev (dropWhile ascii_space (rev (dropWhile ascii_space s)))"

text \<open>\<^verbatim>\<open>s.split(c)\<close>: the pieces between the separators, one more than there are
  separators.\<close>

fun split :: "char \<Rightarrow> string \<Rightarrow> string list" where
  "split c [] = [[]]"
| "split c (x # xs) =
     (if x = c then [] # split c xs
      else (case split c xs of [] \<Rightarrow> [[x]] | p # ps \<Rightarrow> (x # p) # ps))"

definition ascii_digit :: "char \<Rightarrow> bool" where
  "ascii_digit c = (let k = (of_char c :: nat) in 48 \<le> k \<and> k \<le> 57)"

text \<open>Decimal digits, where one underscore may stand between two digits. The flag says
  that the character before was a digit.\<close>

fun parse_digits :: "bool \<Rightarrow> nat \<Rightarrow> string \<Rightarrow> nat option" where
  "parse_digits prev acc [] = (if prev then Some acc else None)"
| "parse_digits prev acc (c # cs) =
     (if ascii_digit c then parse_digits True (acc * 10 + (of_char c - 48)) cs
      else if c = CHR ''_'' \<and> prev then parse_digits False acc cs
      else None)"

text \<open>\<^verbatim>\<open>int(s)\<close> on a string of ASCII characters: white space around, an optional sign,
  decimal digits. \<open>None\<close> is \<^verbatim>\<open>ValueError\<close>.\<close>

definition ascii_int :: "string \<Rightarrow> int option" where
  "ascii_int s =
     (case ascii_strip s of
        [] \<Rightarrow> None
      | c # cs \<Rightarrow>
          if c = CHR ''-'' then map_option (\<lambda>n. - int n) (parse_digits False 0 cs)
          else if c = CHR ''+'' then map_option int (parse_digits False 0 cs)
          else map_option int (parse_digits False 0 (c # cs)))"

text \<open>\<^verbatim>\<open>str(n)\<close> for a natural number.\<close>

fun str_nat :: "nat \<Rightarrow> string" where
  "str_nat n =
     (if n < 10 then [char_of (48 + n)]
      else str_nat (n div 10) @ [char_of (48 + n mod 10)])"

text \<open>How an f-string prints a value that may be \<open>None\<close>.\<close>

fun str_value :: "string option \<Rightarrow> string" where
  "str_value None = ''None''"
| "str_value (Some s) = s"

fun join :: "string \<Rightarrow> string list \<Rightarrow> string" where
  "join sep [] = []"
| "join sep [x] = x"
| "join sep (x # y # zs) = x @ sep @ join sep (y # zs)"

section \<open>The schedule guard (lines 31-44)\<close>

text \<open>The list comprehension of line 41 with its \<^verbatim>\<open>except ValueError\<close>: the pieces that
  are not blank go through \<^verbatim>\<open>int\<close>, and one that fails empties the whole list. The two
  builtins are the arguments \<open>strip\<close> and \<open>to_int\<close>.\<close>

fun convert_all ::
  "(string \<Rightarrow> string) \<Rightarrow> (string \<Rightarrow> int option) \<Rightarrow> string list \<Rightarrow> int list option" where
  "convert_all strip to_int [] = Some []"
| "convert_all strip to_int (h # hs) =
     (case to_int (strip h) of
        None \<Rightarrow> None
      | Some v \<Rightarrow>
          (case convert_all strip to_int hs of None \<Rightarrow> None | Some vs \<Rightarrow> Some (v # vs)))"

definition tokens :: "(string \<Rightarrow> string) \<Rightarrow> string \<Rightarrow> string list" where
  "tokens strip s = filter (\<lambda>h. strip h \<noteq> []) (split CHR '','' s)"

definition targets ::
  "(string \<Rightarrow> string) \<Rightarrow> (string \<Rightarrow> int option) \<Rightarrow> string \<Rightarrow> int list" where
  "targets strip to_int s =
     (case convert_all strip to_int (tokens strip s) of None \<Rightarrow> [] | Some vs \<Rightarrow> vs)"

definition schedule_allows_sending :: "world \<Rightarrow> bool \<times> string \<times> int" where
  "schedule_allows_sending w =
     (if FORCE_SEND w \<or> py_strip w (TARGET_HOURS w) = [] then
        (True, local_today w, utc_hour w)
      else
        (let date_str = zone_date w;
             hour = zone_hour w
         in (hour \<in> set (targets (py_strip w) (py_int w) (TARGET_HOURS w)), date_str, hour)))"

section \<open>Files (lines 78-91)\<close>

text \<open>\<^verbatim>\<open>row.get("es")\<close> is truthy: the key is there with a string that is not empty.\<close>

definition has_headword :: "row \<Rightarrow> bool" where
  "has_headword r = (case map_of r ''es'' of Some (Some s) \<Rightarrow> s \<noteq> [] | _ \<Rightarrow> False)"

definition load_vocab :: "row list \<Rightarrow> row list" where
  "load_vocab rows = filter has_headword rows"

definition load_state :: "state option \<Rightarrow> state" where
  "load_state file =
     (case file of
        Some st \<Rightarrow> st
      | None \<Rightarrow> \<lparr>st_used = Some [], st_last_sent = None, st_sent_hours = Some []\<rparr>)"

section \<open>Selection (lines 93-105)\<close>

text \<open>
  \<^verbatim>\<open>random.sample(population, k)\<close> raises \<^verbatim>\<open>ValueError\<close> unless \<open>0 \<le> k \<le> len\<close>, and
  otherwise returns the elements at \<open>k\<close> different positions, in the order drawn. The
  draws are driven by an explicit entropy source: draw number \<open>t\<close> takes the element at
  position \<open>rnd t mod len\<close> out of what is left of the population.
\<close>

fun draw :: "(nat \<Rightarrow> nat) \<Rightarrow> nat \<Rightarrow> 'a list \<Rightarrow> nat \<Rightarrow> 'a list" where
  "draw rnd t pool 0 = []"
| "draw rnd t [] (Suc k) = []"
| "draw rnd t (p # ps) (Suc k) =
     (let j = rnd t mod length (p # ps)
      in (p # ps) ! j # draw rnd (Suc t) (take j (p # ps) @ drop (Suc j) (p # ps)) k)"

definition random_sample :: "(nat \<Rightarrow> nat) \<Rightarrow> 'a list \<Rightarrow> int \<Rightarrow> error + 'a list" where
  "random_sample rnd population k =
     (if k < 0 \<or> int (length population) < k then Inl ValueError
      else Inr (draw rnd 0 population (nat k)))"

text \<open>\<^verbatim>\<open>pick_words\<close> changes the dictionary \<open>state\<close> in place and returns the words; the
  model returns both. \<open>today\<close> is \<^verbatim>\<open>str(date.today())\<close>.\<close>

definition pick_words ::
  "(nat \<Rightarrow> nat) \<Rightarrow> string \<Rightarrow> row list \<Rightarrow> state \<Rightarrow> int \<Rightarrow> error + (row list \<times> state)" where
  "pick_words rnd today vocab st n =
     (let total = length vocab;
          used0 = set (case st_used st of None \<Rightarrow> [] | Some u \<Rightarrow> u);
          available0 = filter (\<lambda>i. i \<notin> used0) (map int [0..<total]);
          exhausted = int (length available0) < n;
          used1 = (if exhausted then {} else used0);
          available_idxs = (if exhausted then map int [0..<total] else available0)
      in case random_sample rnd available_idxs n of
           Inl e \<Rightarrow> Inl e
         | Inr chosen \<Rightarrow>
             (let used2 = fold insert chosen used1;
                  st' = st\<lparr>st_used := Some (sorted_list_of_set used2),
                           st_last_sent := Some today\<rparr>
              in Inr (map (\<lambda>i. vocab ! nat i) chosen, st')))"

section \<open>The message (lines 107-114)\<close>

text \<open>\<^verbatim>\<open>w.get(key, "")\<close> inside an f-string.\<close>

definition get_or_empty :: "row \<Rightarrow> string \<Rightarrow> string" where
  "get_or_empty r k = (case map_of r k of None \<Rightarrow> [] | Some v \<Rightarrow> str_value v)"

definition nl :: string where
  "nl = [CHR 0x0A]"

text \<open>The em dash and the arrow of line 112, the header and the footer, in UTF-8.\<close>

definition em_dash :: string where
  "em_dash = [CHR 0xE2, CHR 0x80, CHR 0x94]"

definition hook_arrow :: string where
  "hook_arrow = [CHR 0xE2, CHR 0x86, CHR 0xAA]"

definition header :: "string \<Rightarrow> string" where
  "header today =
     [CHR 0xF0, CHR 0x9F, CHR 0x93, CHR 0x9A] @ '' Palabras del d'' @ [CHR 0xC3, CHR 0xAD]
       @ ''a ('' @ today @ ''):''"

definition footer :: string where
  "footer = nl @ [CHR 0xC2, CHR 0xA1, CHR 0xC3, CHR 0x81] @ ''nimo! ''
       @ [CHR 0xF0, CHR 0x9F, CHR 0x92, CHR 0xAA]"

text \<open>The loop of lines 110-112; \<^verbatim>\<open>w["es"]\<close> raises \<^verbatim>\<open>KeyError\<close> on a row without the
  key.\<close>

fun entry_lines :: "nat \<Rightarrow> row list \<Rightarrow> error + string list" where
  "entry_lines i [] = Inr []"
| "entry_lines i (w # ws) =
     (case map_of w ''es'' of
        None \<Rightarrow> Inl KeyError
      | Some es \<Rightarrow>
          (let pos = get_or_empty w ''pos'';
               de = get_or_empty w ''de'';
               ex = get_or_empty w ''example'';
               line = nl @ str_nat i @ ''. '' @ str_value es @ '' ['' @ pos @ ''] '' @ em_dash
                        @ '' '' @ de @ nl @ ''   '' @ hook_arrow @ '' Ej.: '' @ ex
           in case entry_lines (Suc i) ws of
                Inl e \<Rightarrow> Inl e
              | Inr ls \<Rightarrow> Inr (line # ls)))"

definition format_message :: "string \<Rightarrow> row list \<Rightarrow> error + string" where
  "format_message today words =
     (case entry_lines 1 words of
        Inl e \<Rightarrow> Inl e
      | Inr ls \<Rightarrow> Inr (join nl ([header today] @ ls @ [footer])))"

section \<open>Delivery (lines 47-75)\<close>

text \<open>Each backend returns what it did and the exception that \<^verbatim>\<open>urlopen\<close> raised, if any.\<close>

definition send_telegram :: "world \<Rightarrow> string \<Rightarrow> event list \<times> error option" where
  "send_telegram w text =
     (if \<not> telegram_configured w then ([Telegram_skipped], None)
      else if telegram_up w then ([Telegram_request text], None)
      else ([Telegram_request text], Some URLError))"

definition send_twilio_whatsapp :: "world \<Rightarrow> string \<Rightarrow> event list \<times> error option" where
  "send_twilio_whatsapp w text =
     (if \<not> twilio_configured w then ([Twilio_skipped], None)
      else if twilio_up w then ([Twilio_request text], None)
      else ([Twilio_request text], Some URLError))"

section \<open>The run (lines 116-146)\<close>

text \<open>Lines 121-122: the hours already sent on a date.\<close>

definition sent_hours_of :: "state \<Rightarrow> (string \<times> int list) list" where
  "sent_hours_of st = (case st_sent_hours st of None \<Rightarrow> [] | Some d \<Rightarrow> d)"

definition hours_on :: "(string \<times> int list) list \<Rightarrow> string \<Rightarrow> int list" where
  "hours_on sent_hours date_str = (case map_of sent_hours date_str of None \<Rightarrow> [] | Some hs \<Rightarrow> hs)"

text \<open>Lines 139-146: both deliveries, then the record of the hour and the save.\<close>

definition deliver_and_save ::
  "world \<Rightarrow> string \<Rightarrow> state \<Rightarrow> (string \<times> int list) list \<Rightarrow> string \<Rightarrow> int
     \<Rightarrow> event list \<times> outcome" where
  "deliver_and_save w text st sent_hours date_str hour =
     (case send_telegram w text of
        (ev1, Some e) \<Rightarrow> (ev1, Crashed e)
      | (ev1, None) \<Rightarrow>
          (case send_twilio_whatsapp w text of
             (ev2, Some e) \<Rightarrow> (ev1 @ ev2, Crashed e)
           | (ev2, None) \<Rightarrow>
               (let hours_today = insert hour (set (hours_on sent_hours date_str));
                    sent_hours' = AList.update date_str (sorted_list_of_set hours_today) sent_hours;
                    st' = st\<lparr>st_sent_hours := Some sent_hours'\<rparr>
                in (ev1 @ ev2 @ [State_saved st'], Done))))"

definition main :: "world \<Rightarrow> event list \<times> outcome" where
  "main w =
     (case schedule_allows_sending w of
        (allowed, date_str, hour) \<Rightarrow>
          (let st = load_state (state_file w);
               sent_hours = sent_hours_of st;
               hours_today = set (hours_on sent_hours date_str)
           in if \<not> allowed \<and> \<not> FORCE_SEND w then ([], Blocked_schedule)
              else if hour \<in> hours_today \<and> \<not> FORCE_SEND w then ([], Blocked_duplicate)
              else
                (let vocab = load_vocab (csv_rows w)
                 in if int (length vocab) < N_WORDS w then ([], Exit_too_small)
                    else
                      (case pick_words (entropy w) (local_today w) vocab st (N_WORDS w) of
                         Inl e \<Rightarrow> ([], Crashed e)
                       | Inr (words, st1) \<Rightarrow>
                           (case format_message (local_today w) words of
                              Inl e \<Rightarrow> ([], Crashed e)
                            | Inr text \<Rightarrow>
                                deliver_and_save w text st1 sent_hours date_str hour)))))"

section \<open>What a run shows\<close>

text \<open>The date and hour that the guard returns, the hours that the state file records for
  that date (lines 117-122), and whether the run gets past both returns of lines 124-130.\<close>

definition guard_date :: "world \<Rightarrow> string" where
  "guard_date w = fst (snd (schedule_allows_sending w))"

definition guard_hour :: "world \<Rightarrow> int" where
  "guard_hour w = snd (snd (schedule_allows_sending w))"

definition sent_today :: "world \<Rightarrow> int set" where
  "sent_today w = set (hours_on (sent_hours_of (load_state (state_file w))) (guard_date w))"

definition permitted :: "world \<Rightarrow> bool" where
  "permitted w = (snd (main w) \<noteq> Blocked_schedule \<and> snd (main w) \<noteq> Blocked_duplicate)"

text \<open>Lines 132-146, as \<^const>\<open>main\<close> runs them once the guard has let the run through.\<close>

definition after_guard :: "world \<Rightarrow> event list \<times> outcome" where
  "after_guard w =
     (let st = load_state (state_file w);
          vocab = load_vocab (csv_rows w)
      in if int (length vocab) < N_WORDS w then ([], Exit_too_small)
         else
           (case pick_words (entropy w) (local_today w) vocab st (N_WORDS w) of
              Inl e \<Rightarrow> ([], Crashed e)
            | Inr (words, st1) \<Rightarrow>
                (case format_message (local_today w) words of
                   Inl e \<Rightarrow> ([], Crashed e)
                 | Inr text \<Rightarrow>
                     deliver_and_save w text st1 (sent_hours_of st) (guard_date w) (guard_hour w))))"

text \<open>A run to try the theorems on: one word in the list, no state file, Telegram
  configured and reachable, the hour 15 in the zone, and the builtins as they act on ASCII
  strings.\<close>

definition demo_row :: row where
  "demo_row = [(''es'', Some ''ola''), (''pos'', Some ''interj''), (''de'', Some ''hi''),
     (''example'', Some ([CHR 0xC2, CHR 0xA1] @ ''Ola!''))]"

definition demo_world :: world where
  "demo_world =
     \<lparr>N_WORDS = 1, TARGET_HOURS = ''9,15,21'', FORCE_SEND = False, utc_hour = 14,
      local_today = ''2024-01-01'', zone_date = ''2024-01-01'', zone_hour = 15,
      telegram_configured = True, telegram_up = True,
      twilio_configured = False, twilio_up = False,
      entropy = (\<lambda>t. 0), csv_rows = [demo_row], state_file = None,
      py_strip = ascii_strip, py_int = ascii_int\<rparr>"


section \<open>The shape of a run\<close>

lemma main_unfold:
  "main w =
     (if \<not> fst (schedule_allows_sending w) \<and> \<not> FORCE_SEND w then ([], Blocked_schedule)
      else if guard_hour w \<in> sent_today w \<and> \<not> FORCE_SEND w then ([], Blocked_duplicate)
      else after_guard w)"
proof -
  obtain a d h where sas: "schedule_allows_sending w = (a, d, h)"
    by (cases "schedule_allows_sending w") auto
  have gd: "guard_date w = d" and gh: "guard_hour w = h"
    by (simp_all add: guard_date_def guard_hour_def sas)
  show ?thesis
    unfolding main_def after_guard_def sent_today_def gd gh sas
    by (simp add: Let_def)
qed

lemma deliver_and_save_outcome:
  "snd (deliver_and_save w msg st sh d h) = Done \<or>
   snd (deliver_and_save w msg st sh d h) = Crashed URLError"
  by (simp add: deliver_and_save_def send_telegram_def send_twilio_whatsapp_def Let_def)

lemma deliver_and_save_not_blocked:
  "snd (deliver_and_save w msg st sh d h) \<noteq> Blocked_schedule"
  "snd (deliver_and_save w msg st sh d h) \<noteq> Blocked_duplicate"
  using deliver_and_save_outcome [of w msg st sh d h] by auto

lemma after_guard_outcome:
  "snd (after_guard w) \<noteq> Blocked_schedule \<and> snd (after_guard w) \<noteq> Blocked_duplicate"
  by (simp add: after_guard_def Let_def deliver_and_save_not_blocked
        split: sum.splits prod.splits)

lemma permitted_iff:
  "permitted w \<longleftrightarrow>
     (fst (schedule_allows_sending w) \<or> FORCE_SEND w) \<and>
     (guard_hour w \<notin> sent_today w \<or> FORCE_SEND w)"
  using after_guard_outcome [of w] by (auto simp: permitted_def main_unfold)

section \<open>The configuration string of the target hours\<close>

text \<open>Line 33's test of the configuration string, and the list that line 41 makes of it,
  with the builtins of the run.\<close>

definition blank :: "world \<Rightarrow> bool" where
  "blank w = (py_strip w (TARGET_HOURS w) = [])"

definition target_hours :: "world \<Rightarrow> int list" where
  "target_hours w = targets (py_strip w) (py_int w) (TARGET_HOURS w)"

text \<open>The tokens of the string: the pieces between commas that line 41 keeps.\<close>

definition target_tokens :: "world \<Rightarrow> string list" where
  "target_tokens w = tokens (py_strip w) (TARGET_HOURS w)"




lemma schedule_allows_sending_eq:
  "schedule_allows_sending w =
     (if FORCE_SEND w \<or> blank w then (True, local_today w, utc_hour w)
      else (zone_hour w \<in> set (target_hours w), zone_date w, zone_hour w))"
  by (simp add: schedule_allows_sending_def blank_def target_hours_def Let_def)

lemma convert_all_None:
  "h \<in> set hs \<Longrightarrow> to_int (strip h) = None \<Longrightarrow> convert_all strip to_int hs = None"
  by (induction hs) (auto split: option.splits)

lemma target_hours_invalid_token:
  assumes "h \<in> set (target_tokens w)" and "py_int w (py_strip w h) = None"
  shows "target_hours w = []"
  using convert_all_None [of h "tokens (py_strip w) (TARGET_HOURS w)" "py_int w" "py_strip w"] assms
  by (simp add: target_hours_def targets_def target_tokens_def)





section \<open>The send guard\<close>




section \<open>A token that is no integer\<close>

text \<open>
  Claim C9. A token is a piece between commas that line 41 keeps, that is, one that
  \<^verbatim>\<open>strip\<close> does not empty. When the configuration string is not blank and holds a token
  that \<^verbatim>\<open>int\<close> rejects, and \<open>FORCE_SEND\<close> is off, the list of target hours is empty, the
  guard answers \<open>False\<close> at every hour and the run ends at line 126; whereas a blank string
  makes the guard answer \<open>True\<close>. This holds whatever \<^verbatim>\<open>strip\<close> removes and whatever
  \<^verbatim>\<open>int\<close> rejects.
\<close>

theorem invalid_token_blocks_every_hour:
  assumes "\<not> blank w"
    and "h \<in> set (target_tokens w)"
    and "py_int w (py_strip w h) = None"
    and "\<not> FORCE_SEND w"
  shows "target_hours w = []
    \<and> (\<forall>hr. schedule_allows_sending (w\<lparr>zone_hour := hr\<rparr>) = (False, zone_date w, hr))
    \<and> (\<forall>hr. main (w\<lparr>zone_hour := hr\<rparr>) = ([], Blocked_schedule))
    \<and> (\<forall>v. blank v \<longrightarrow> fst (schedule_allows_sending v))"
proof (intro conjI allI impI)
  show empty: "target_hours w = []"
    using assms(2,3) by (rule target_hours_invalid_token)
  have same: "blank (w\<lparr>zone_hour := hr\<rparr>) = blank w"
    "target_hours (w\<lparr>zone_hour := hr\<rparr>) = target_hours w" for hr
    by (simp_all add: blank_def target_hours_def)
  show sched: "schedule_allows_sending (w\<lparr>zone_hour := hr\<rparr>) = (False, zone_date w, hr)" for hr
    using assms(1,4) empty by (simp add: schedule_allows_sending_eq same)
  show "main (w\<lparr>zone_hour := hr\<rparr>) = ([], Blocked_schedule)" for hr
    using sched [of hr] assms(4) by (simp add: main_unfold)
  show "fst (schedule_allows_sending v)" if "blank v" for v
    using that by (simp add: schedule_allows_sending_eq)
qed

theorem invalid_token_blocks_every_hour_witness:
  "\<not> blank (demo_world\<lparr>TARGET_HOURS := ''9,x,21''\<rparr>)
   \<and> ''x'' \<in> set (target_tokens (demo_world\<lparr>TARGET_HOURS := ''9,x,21''\<rparr>))
   \<and> ascii_int (ascii_strip ''x'') = None
   \<and> \<not> FORCE_SEND (demo_world\<lparr>TARGET_HOURS := ''9,x,21''\<rparr>)
   \<and> target_hours (demo_world\<lparr>TARGET_HOURS := ''9,x,21''\<rparr>) = []
   \<and> main (demo_world\<lparr>TARGET_HOURS := ''9,x,21'', zone_hour := 9\<rparr>) = ([], Blocked_schedule)
   \<and> blank (demo_world\<lparr>TARGET_HOURS := ''  ''\<rparr>)
   \<and> fst (schedule_allows_sending (demo_world\<lparr>TARGET_HOURS := ''  ''\<rparr>))"
proof -
  let ?w = "demo_world\<lparr>TARGET_HOURS := ''9,x,21''\<rparr>"
  let ?b = "demo_world\<lparr>TARGET_HOURS := ''  ''\<rparr>"
  have h0: "\<not> blank ?w" by code_simp
  have h1: "''x'' \<in> set (target_tokens ?w)" by code_simp
  have h2: "ascii_int (ascii_strip ''x'') = None" by code_simp
  then have h2': "py_int ?w (py_strip ?w ''x'') = None" by (simp add: demo_world_def)
  have h3: "\<not> FORCE_SEND ?w" by (simp add: demo_world_def)
  have h4: "blank ?b" by code_simp
  note r = invalid_token_blocks_every_hour [OF h0 h1 h2' h3]
  have c1: "target_hours ?w = []"
    using r by (elim conjE)
  have "main (?w\<lparr>zone_hour := 9\<rparr>) = ([], Blocked_schedule)"
    using r by (elim conjE) (erule allE [of _ 9])
  then have c2: "main (demo_world\<lparr>TARGET_HOURS := ''9,x,21'', zone_hour := 9\<rparr>)
      = ([], Blocked_schedule)"
    by simp
  have "blank ?b \<longrightarrow> fst (schedule_allows_sending ?b)"
    using r by (elim conjE) (erule allE [of _ ?b])
  with h4 have c3: "fst (schedule_allows_sending ?b)"
    by (rule rev_mp)
  show ?thesis
    by (intro conjI) (rule h0 h1 h2 h3 c1 c2 h4 c3)+
qed

section \<open>What a run saves\<close>

lemma hours_on_update:
  "hours_on (AList.update d v sh) d' = (if d' = d then v else hours_on sh d')"
  by (simp add: hours_on_def update_conv')

lemma map_of_update_other:
  "d' \<noteq> d \<Longrightarrow> map_of (AList.update d v sh) d' = map_of sh d'"
  by (simp add: update_conv')

lemma deliver_and_save_saved:
  "State_saved st \<in> set (fst (deliver_and_save w msg st1 sh d h)) \<Longrightarrow>
     st = st1\<lparr>st_sent_hours :=
            Some (AList.update d (sorted_list_of_set (insert h (set (hours_on sh d)))) sh)\<rparr>"
  by (auto simp: deliver_and_save_def send_telegram_def send_twilio_whatsapp_def Let_def
        split: if_splits)

lemma after_guard_saved:
  assumes "State_saved st \<in> set (fst (after_guard w))"
  shows "sent_hours_of st =
     AList.update (guard_date w) (sorted_list_of_set (insert (guard_hour w) (sent_today w)))
       (sent_hours_of (load_state (state_file w)))"
proof -
  let ?st0 = "load_state (state_file w)"
  from assms obtain words st1 msg where
    pick: "pick_words (entropy w) (local_today w) (load_vocab (csv_rows w)) ?st0 (N_WORDS w)
             = Inr (words, st1)"
    and sv: "State_saved st \<in> set (fst (deliver_and_save w msg st1 (sent_hours_of ?st0)
               (guard_date w) (guard_hour w)))"
    by (auto simp: after_guard_def Let_def split: if_splits sum.splits prod.splits)
  from deliver_and_save_saved [OF sv] show ?thesis
    by (simp add: sent_hours_of_def sent_today_def)
qed

lemma main_saved:
  assumes "State_saved st \<in> set (fst (main w))"
  shows "sent_hours_of st =
     AList.update (guard_date w) (sorted_list_of_set (insert (guard_hour w) (sent_today w)))
       (sent_hours_of (load_state (state_file w)))"
  using assms after_guard_saved [of st w] by (simp add: main_unfold split: if_splits)

lemma finite_sent_today: "finite (sent_today w)"
  by (simp add: sent_today_def)

lemma set_saved_hours:
  "set (sorted_list_of_set (insert x (sent_today w))) = insert x (sent_today w)"
  by (simp only: set_sorted_list_of_set finite_insert finite_sent_today)

lemma main_saved_hours:
  assumes "State_saved st \<in> set (fst (main w))"
  shows "set (hours_on (sent_hours_of st) (guard_date w)) = insert (guard_hour w) (sent_today w)"
  by (simp only: main_saved [OF assms] hours_on_update refl if_True set_saved_hours)

section \<open>The record of sent hours\<close>

text \<open>The contents of the state file after a run: the last state saved, or what was there
  before. The record of sent hours before and after a run is read from them as line 121
  reads it.\<close>

fun persisted :: "state option \<Rightarrow> event list \<Rightarrow> state option" where
  "persisted file [] = file"
| "persisted file (State_saved st # es) = persisted (Some st) es"
| "persisted file (e # es) = persisted file es"

definition sent_hours_before :: "world \<Rightarrow> (string \<times> int list) list" where
  "sent_hours_before w = sent_hours_of (load_state (state_file w))"

definition sent_hours_after :: "world \<Rightarrow> (string \<times> int list) list" where
  "sent_hours_after w = sent_hours_of (load_state (persisted (state_file w) (fst (main w))))"

lemma persisted_cases:
  "persisted f0 tr = f0 \<or> (\<exists>st. State_saved st \<in> set tr \<and> persisted f0 tr = Some st)"
proof (induction tr arbitrary: f0)
  case Nil
  then show ?case by simp
next
  case (Cons e es)
  show ?case
  proof (cases e)
    case (State_saved st)
    with Cons [of "Some st"] show ?thesis by auto
  qed (use Cons [of f0] in auto)
qed

text \<open>
  Claim C8. Over any run, the hours recorded for the guard's date after the run include
  those recorded before, and the entry of every other date is the same as before.
\<close>

theorem sent_hours_only_grow:
  "set (hours_on (sent_hours_before w) (guard_date w))
     \<subseteq> set (hours_on (sent_hours_after w) (guard_date w))
   \<and> (\<forall>d. d \<noteq> guard_date w \<longrightarrow>
         map_of (sent_hours_after w) d = map_of (sent_hours_before w) d)"
proof -
  consider (same) "persisted (state_file w) (fst (main w)) = state_file w"
    | (saved) st where "State_saved st \<in> set (fst (main w))"
        and "persisted (state_file w) (fst (main w)) = Some st"
    using persisted_cases [of "state_file w" "fst (main w)"] by blast
  then show ?thesis
  proof cases
    case same
    then show ?thesis by (simp add: sent_hours_after_def sent_hours_before_def)
  next
    case saved
    have after: "sent_hours_after w = sent_hours_of st"
      by (simp add: sent_hours_after_def saved(2) load_state_def)
    have grow: "set (hours_on (sent_hours_of st) (guard_date w))
        = insert (guard_hour w) (set (hours_on (sent_hours_before w) (guard_date w)))"
      using main_saved_hours [OF saved(1)] by (simp add: sent_today_def sent_hours_before_def)
    have keep: "map_of (sent_hours_of st) d = map_of (sent_hours_before w) d"
      if "d \<noteq> guard_date w" for d
      using that by (simp add: main_saved [OF saved(1)] sent_hours_before_def
          map_of_update_other)
    from grow keep show ?thesis by (auto simp: after)
  qed
qed

text \<open>A state file with two dates, the earlier one complete.\<close>

definition two_day_state :: state where
  "two_day_state = \<lparr>st_used = Some [], st_last_sent = Some ''2023-12-31'',
     st_sent_hours = Some [(''2023-12-31'', [9, 15]), (''2024-01-01'', [9])]\<rparr>"

theorem sent_hours_only_grow_witness:
  "sent_hours_before (demo_world\<lparr>state_file := Some two_day_state\<rparr>)
     = [(''2023-12-31'', [9, 15]), (''2024-01-01'', [9])]
   \<and> sent_hours_after (demo_world\<lparr>state_file := Some two_day_state\<rparr>)
     = [(''2023-12-31'', [9, 15]), (''2024-01-01'', [9, 15])]
   \<and> map_of (sent_hours_after (demo_world\<lparr>state_file := Some two_day_state\<rparr>)) ''2023-12-31''
     = map_of (sent_hours_before (demo_world\<lparr>state_file := Some two_day_state\<rparr>)) ''2023-12-31''
   \<and> set (hours_on (sent_hours_before (demo_world\<lparr>state_file := Some two_day_state\<rparr>))
          (guard_date (demo_world\<lparr>state_file := Some two_day_state\<rparr>)))
     \<subseteq> set (hours_on (sent_hours_after (demo_world\<lparr>state_file := Some two_day_state\<rparr>))
          (guard_date (demo_world\<lparr>state_file := Some two_day_state\<rparr>)))"
proof -
  let ?w = "demo_world\<lparr>state_file := Some two_day_state\<rparr>"
  note r = sent_hours_only_grow [of ?w]
  have b: "sent_hours_before ?w = [(''2023-12-31'', [9, 15]), (''2024-01-01'', [9])]"
    by code_simp
  have a: "sent_hours_after ?w = [(''2023-12-31'', [9, 15]), (''2024-01-01'', [9, 15])]"
    by code_simp
  have ne: "''2023-12-31'' \<noteq> guard_date ?w" by code_simp
  have "''2023-12-31'' \<noteq> guard_date ?w \<longrightarrow>
      map_of (sent_hours_after ?w) ''2023-12-31'' = map_of (sent_hours_before ?w) ''2023-12-31''"
    using r by (elim conjE) (erule allE [of _ "''2023-12-31''"])
  with ne have k: "map_of (sent_hours_after ?w) ''2023-12-31''
      = map_of (sent_hours_before ?w) ''2023-12-31''"
    by (rule rev_mp)
  have g: "set (hours_on (sent_hours_before ?w) (guard_date ?w))
      \<subseteq> set (hours_on (sent_hours_after ?w) (guard_date ?w))"
    using r by (elim conjE)
  show ?thesis
    by (intro conjI) (rule b a k g)+
qed

section \<open>Which clock the guard reads\<close>

text \<open>A forced run one hour before midnight UTC, when the zone is already at the next
  day.\<close>

definition forced_world :: world where
  "forced_world = demo_world\<lparr>FORCE_SEND := True, utc_hour := 23,
     zone_date := ''2024-01-02'', zone_hour := 0\<rparr>"

text \<open>A run whose configuration string is one no-break space (U+00A0, two bytes in UTF-8),
  under an interpreter whose \<^verbatim>\<open>strip\<close> removes it, as Python's does.\<close>

definition nbsp_world :: world where
  "nbsp_world = demo_world\<lparr>TARGET_HOURS := [CHR 0xC2, CHR 0xA0], utc_hour := 23,
     zone_date := ''2024-01-02'', zone_hour := 0,
     py_strip := (\<lambda>s. if s = [CHR 0xC2, CHR 0xA0] then [] else ascii_strip s)\<rparr>"

lemma send_without_zone:
  "send_telegram (w\<lparr>zone_date := d, zone_hour := h\<rparr>) = send_telegram w"
  "send_twilio_whatsapp (w\<lparr>zone_date := d, zone_hour := h\<rparr>) = send_twilio_whatsapp w"
  by (simp_all add: fun_eq_iff send_telegram_def send_twilio_whatsapp_def)

lemma deliver_without_zone:
  "deliver_and_save (w\<lparr>zone_date := d, zone_hour := h\<rparr>) = deliver_and_save w"
  by (simp add: fun_eq_iff deliver_and_save_def send_without_zone Let_def
        split: prod.splits option.splits)

lemma zone_clock_unused:
  assumes "FORCE_SEND w \<or> blank w"
  shows "main (w\<lparr>zone_date := d, zone_hour := h\<rparr>) = main w"
proof -
  let ?v = "w\<lparr>zone_date := d, zone_hour := h\<rparr>"
  have sas: "schedule_allows_sending ?v = schedule_allows_sending w"
    using assms by (auto simp: schedule_allows_sending_eq blank_def)
  then have g: "guard_date ?v = guard_date w" "guard_hour ?v = guard_hour w"
    "sent_today ?v = sent_today w"
    by (simp_all add: guard_date_def guard_hour_def sent_today_def)
  have "after_guard ?v = after_guard w"
    unfolding after_guard_def g deliver_without_zone
    by (simp add: Let_def split: sum.splits prod.splits)
  then show ?thesis
    by (simp add: main_unfold sas g)
qed

text \<open>
  Claim C10. When \<open>FORCE_SEND\<close> is on or \<open>TARGET_HOURS\<close> is blank
  (\<^verbatim>\<open>TARGET_HOURS.strip()\<close> is empty, whatever \<^verbatim>\<open>strip\<close> removes), the guard returns the
  hour of the UTC clock and the local date: the clock of the zone plays no part in the
  run, the duplicate check reads the record under the local date, and a run that saves
  records the UTC hour under the local date. The clock of the zone is read in the other
  case only: a string that is not blank, without force.
\<close>

theorem forced_or_blank_reads_utc_hour_and_local_date:
  assumes "FORCE_SEND w \<or> blank w"
  shows "schedule_allows_sending w = (True, local_today w, utc_hour w)
    \<and> (\<forall>d h. main (w\<lparr>zone_date := d, zone_hour := h\<rparr>) = main w)
    \<and> sent_today w = set (hours_on (sent_hours_of (load_state (state_file w))) (local_today w))
    \<and> (\<forall>st. State_saved st \<in> set (fst (main w)) \<longrightarrow>
          utc_hour w \<in> set (hours_on (sent_hours_of st) (local_today w)))
    \<and> (\<forall>v. \<not> FORCE_SEND v \<and> \<not> blank v \<longrightarrow>
          schedule_allows_sending v =
            (zone_hour v \<in> set (target_hours v), zone_date v, zone_hour v))"
proof (intro conjI allI impI)
  show sas: "schedule_allows_sending w = (True, local_today w, utc_hour w)"
    using assms by (auto simp: schedule_allows_sending_eq blank_def)
  then have gd: "guard_date w = local_today w" and gh: "guard_hour w = utc_hour w"
    by (simp_all add: guard_date_def guard_hour_def)
  show "main (w\<lparr>zone_date := d, zone_hour := h\<rparr>) = main w" for d h
    using assms by (rule zone_clock_unused)
  show "sent_today w = set (hours_on (sent_hours_of (load_state (state_file w))) (local_today w))"
    by (simp add: sent_today_def gd)
  show "utc_hour w \<in> set (hours_on (sent_hours_of st) (local_today w))"
    if "State_saved st \<in> set (fst (main w))" for st
    using main_saved_hours [OF that] by (simp add: gd gh)
  show "schedule_allows_sending v =
      (zone_hour v \<in> set (target_hours v), zone_date v, zone_hour v)"
    if "\<not> FORCE_SEND v \<and> \<not> blank v" for v
    using that by (simp add: schedule_allows_sending_eq)
qed

theorem forced_or_blank_reads_utc_hour_and_local_date_witness:
  "FORCE_SEND forced_world
   \<and> zone_date forced_world = ''2024-01-02'' \<and> zone_hour forced_world = 0
   \<and> schedule_allows_sending forced_world = (True, ''2024-01-01'', 23)
   \<and> main (forced_world\<lparr>zone_date := ''2024-01-01'', zone_hour := 23\<rparr>) = main forced_world
   \<and> map_option sent_hours_of (persisted None (fst (main forced_world)))
        = Some [(''2024-01-01'', [23])]
   \<and> \<not> FORCE_SEND nbsp_world \<and> blank nbsp_world
   \<and> schedule_allows_sending nbsp_world = (True, ''2024-01-01'', 23)"
proof -
  have b: "\<not> FORCE_SEND nbsp_world" "blank nbsp_world"
    by (simp_all add: nbsp_world_def demo_world_def blank_def)
  then have hb: "FORCE_SEND nbsp_world \<or> blank nbsp_world" by simp
  have lb: "local_today nbsp_world = ''2024-01-01''" "utc_hour nbsp_world = 23"
    by (simp_all add: nbsp_world_def demo_world_def)
  have "schedule_allows_sending nbsp_world
      = (True, local_today nbsp_world, utc_hour nbsp_world)"
    using forced_or_blank_reads_utc_hour_and_local_date [OF hb] by (elim conjE)
  then have c4: "schedule_allows_sending nbsp_world = (True, ''2024-01-01'', 23)"
    by (simp only: lb)
  have h: "FORCE_SEND forced_world \<or> blank forced_world"
    by (simp add: forced_world_def)
  note r = forced_or_blank_reads_utc_hour_and_local_date [OF h]
  have f: "FORCE_SEND forced_world" by (simp add: forced_world_def)
  have z: "zone_date forced_world = ''2024-01-02''" "zone_hour forced_world = 0"
    by (simp_all add: forced_world_def)
  have lt: "local_today forced_world = ''2024-01-01''" "utc_hour forced_world = 23"
    by (simp_all add: forced_world_def demo_world_def)
  have "schedule_allows_sending forced_world
      = (True, local_today forced_world, utc_hour forced_world)"
    using r by (elim conjE)
  then have c1: "schedule_allows_sending forced_world = (True, ''2024-01-01'', 23)"
    by (simp only: lt)
  have c2: "main (forced_world\<lparr>zone_date := ''2024-01-01'', zone_hour := 23\<rparr>)
      = main forced_world"
    using r by (elim conjE) (erule allE [of _ "''2024-01-01''"], erule allE [of _ 23])
  have c3: "map_option sent_hours_of (persisted None (fst (main forced_world)))
      = Some [(''2024-01-01'', [23])]"
    by code_simp
  show ?thesis
    by (intro conjI) (rule f z c1 c2 c3 b c4)+
qed

section \<open>The selection\<close>

text \<open>
  The parts of \<^const>\<open>pick_words\<close> by name: the used set read from the state (line 95),
  all indices, the indices not yet used (line 96), the test of line 97, and the population
  and the used set that lines 97-99 leave for the draw.
\<close>

definition used_of :: "state \<Rightarrow> int set" where
  "used_of st = set (case st_used st of None \<Rightarrow> [] | Some u \<Rightarrow> u)"

definition all_idxs :: "row list \<Rightarrow> int list" where
  "all_idxs vocab = map int [0..<length vocab]"

definition available :: "row list \<Rightarrow> state \<Rightarrow> int list" where
  "available vocab st = filter (\<lambda>i. i \<notin> used_of st) (all_idxs vocab)"

definition exhausted :: "row list \<Rightarrow> state \<Rightarrow> int \<Rightarrow> bool" where
  "exhausted vocab st n = (int (length (available vocab st)) < n)"

definition pool :: "row list \<Rightarrow> state \<Rightarrow> int \<Rightarrow> int list" where
  "pool vocab st n = (if exhausted vocab st n then all_idxs vocab else available vocab st)"

definition used_base :: "row list \<Rightarrow> state \<Rightarrow> int \<Rightarrow> int set" where
  "used_base vocab st n = (if exhausted vocab st n then {} else used_of st)"

text \<open>Lists of words and states to try the selection on.\<close>

definition word_row :: "string \<Rightarrow> row" where
  "word_row es = [(''es'', Some es)]"

definition three_words :: "row list" where
  "three_words = [word_row ''uno'', word_row ''dos'', word_row ''tres'']"

definition used_state :: "int list \<Rightarrow> state" where
  "used_state u = \<lparr>st_used = Some u, st_last_sent = None, st_sent_hours = Some []\<rparr>"

lemma remove_nth:
  assumes "j < length xs" and "distinct xs"
  shows "distinct (take j xs @ drop (Suc j) xs)"
    and "xs ! j \<notin> set (take j xs @ drop (Suc j) xs)"
    and "set (take j xs @ drop (Suc j) xs) \<subseteq> set xs"
    and "xs ! j \<in> set xs"
proof -
  have xs: "xs = take j xs @ xs ! j # drop (Suc j) xs"
    using assms(1) by (rule id_take_nth_drop)
  with assms(2) have d: "distinct (take j xs @ xs ! j # drop (Suc j) xs)" by simp
  from d show "distinct (take j xs @ drop (Suc j) xs)" by auto
  from d show "xs ! j \<notin> set (take j xs @ drop (Suc j) xs)" by auto
  show "set (take j xs @ drop (Suc j) xs) \<subseteq> set xs"
    using set_take_subset [of j xs] set_drop_subset [of "Suc j" xs] by auto
  show "xs ! j \<in> set xs" using assms(1) by simp
qed

lemma length_remove_nth:
  "j < length xs \<Longrightarrow> length (take j xs @ drop (Suc j) xs) = length xs - 1"
  by simp

lemma length_draw: "k \<le> length xs \<Longrightarrow> length (draw rnd t xs k) = k"
proof (induction rnd t xs k rule: draw.induct)
  case (3 rnd t p ps k)
  let ?j = "rnd t mod length (p # ps)"
  have "?j < length (p # ps)" by simp
  then have "length (take ?j (p # ps) @ drop (Suc ?j) (p # ps)) = length (p # ps) - 1"
    by (rule length_remove_nth)
  with 3 show ?case by (simp add: Let_def del: take_Cons' drop_Cons' take_Suc_Cons drop_Suc_Cons)
qed simp_all

lemma draw_distinct:
  "distinct xs \<Longrightarrow> distinct (draw rnd t xs k) \<and> set (draw rnd t xs k) \<subseteq> set xs"
proof (induction rnd t xs k rule: draw.induct)
  case (3 rnd t p ps k)
  let ?xs = "p # ps"
  let ?j = "rnd t mod length ?xs"
  let ?rest = "take ?j ?xs @ drop (Suc ?j) ?xs"
  have j: "?j < length ?xs" by simp
  note r = remove_nth [OF j "3.prems"]
  from "3.IH" [OF refl r(1)] have ih: "distinct (draw rnd (Suc t) ?rest k)"
    "set (draw rnd (Suc t) ?rest k) \<subseteq> set ?rest" by simp_all
  have eq: "draw rnd t ?xs (Suc k) = ?xs ! ?j # draw rnd (Suc t) ?rest k"
    by (simp add: Let_def del: take_Cons' drop_Cons' take_Suc_Cons drop_Suc_Cons nth_Cons')
  from ih r show ?case unfolding eq by auto
qed simp_all


lemma pick_words_unfold:
  "pick_words rnd today vocab st n =
     (case random_sample rnd (pool vocab st n) n of
        Inl e \<Rightarrow> Inl e
      | Inr chosen \<Rightarrow>
          Inr (map (\<lambda>i. vocab ! nat i) chosen,
               st\<lparr>st_used := Some (sorted_list_of_set (set chosen \<union> used_base vocab st n)),
                  st_last_sent := Some today\<rparr>))"
proof -
  have u: "set (case st_used st of None \<Rightarrow> [] | Some u \<Rightarrow> u) = used_of st"
    by (simp add: used_of_def)
  have a: "filter (\<lambda>i. i \<notin> used_of st) (map int [0..<length vocab]) = available vocab st"
    by (simp add: available_def all_idxs_def)
  have f: "fold insert chosen A = set chosen \<union> A" for chosen :: "int list" and A
    by (simp add: union_set_fold)
  show ?thesis
  proof (cases "exhausted vocab st n")
    case True
    then have p: "pool vocab st n = map int [0..<length vocab]" "used_base vocab st n = {}"
      and e: "int (length (available vocab st)) < n"
      by (simp_all add: pool_def used_base_def all_idxs_def exhausted_def)
    show ?thesis unfolding pick_words_def Let_def u a f p using e by simp
  next
    case False
    then have p: "pool vocab st n = available vocab st" "used_base vocab st n = used_of st"
      and e: "\<not> int (length (available vocab st)) < n"
      by (simp_all add: pool_def used_base_def exhausted_def)
    show ?thesis unfolding pick_words_def Let_def u a f p using e by simp
  qed
qed

lemma pool_in_range: "set (pool vocab st n) \<subseteq> {0..<int (length vocab)}"
  by (auto simp: pool_def available_def all_idxs_def)

lemma distinct_pool: "distinct (pool vocab st n)"
  by (simp add: pool_def available_def all_idxs_def distinct_map)

lemma pool_avoids_used: "set (pool vocab st n) \<inter> used_base vocab st n = {}"
  by (auto simp: pool_def used_base_def available_def)

lemma length_pool:
  "n \<le> int (length vocab) \<Longrightarrow> n \<le> int (length (pool vocab st n))"
  by (simp add: pool_def exhausted_def all_idxs_def)

lemma length_pool_short:
  "int (length vocab) < n \<Longrightarrow> int (length (pool vocab st n)) < n"
proof -
  assume short: "int (length vocab) < n"
  have "length (available vocab st) \<le> length vocab"
    using length_filter_le [of "\<lambda>i. i \<notin> used_of st" "all_idxs vocab"]
    by (simp add: available_def all_idxs_def)
  with short have "exhausted vocab st n" by (simp add: exhausted_def)
  with short show ?thesis by (simp add: pool_def all_idxs_def)
qed

lemma random_sample_ok:
  assumes "0 \<le> k" and "k \<le> int (length xs)" and "distinct xs"
  shows "\<exists>chosen. random_sample rnd xs k = Inr chosen \<and> length chosen = nat k
           \<and> distinct chosen \<and> set chosen \<subseteq> set xs"
proof -
  from assms(1,2) have le: "nat k \<le> length xs" by simp
  have "random_sample rnd xs k = Inr (draw rnd 0 xs (nat k))"
    using assms(1,2) by (simp add: random_sample_def)
  with length_draw [OF le, of rnd 0] draw_distinct [OF assms(3), of rnd 0 "nat k"]
  show ?thesis by simp
qed

lemma finite_used_base: "finite (used_base vocab st n)"
  by (cases "st_used st") (simp_all add: used_base_def used_of_def)

lemma pick_words_result:
  assumes "0 \<le> n" and "n \<le> int (length vocab)"
  obtains chosen where
    "random_sample rnd (pool vocab st n) n = Inr chosen"
    "length chosen = nat n" "distinct chosen" "set chosen \<subseteq> set (pool vocab st n)"
    "pick_words rnd today vocab st n =
       Inr (map (\<lambda>i. vocab ! nat i) chosen,
            st\<lparr>st_used := Some (sorted_list_of_set (set chosen \<union> used_base vocab st n)),
               st_last_sent := Some today\<rparr>)"
proof -
  have lp: "n \<le> int (length (pool vocab st n))" using assms(2) by (rule length_pool)
  have dp: "distinct (pool vocab st n)" by (rule distinct_pool)
  from random_sample_ok [OF assms(1) lp dp]
  obtain chosen where c: "random_sample rnd (pool vocab st n) n = Inr chosen"
    "length chosen = nat n" "distinct chosen" "set chosen \<subseteq> set (pool vocab st n)"
    by blast
  from c(1) have "pick_words rnd today vocab st n =
       Inr (map (\<lambda>i. vocab ! nat i) chosen,
            st\<lparr>st_used := Some (sorted_list_of_set (set chosen \<union> used_base vocab st n)),
               st_last_sent := Some today\<rparr>)"
    by (simp add: pick_words_unfold)
  with c show thesis by (rule that)
qed

lemma new_used_size:
  assumes "length chosen = nat n" and "0 \<le> n" and "distinct chosen"
    and "set chosen \<subseteq> set (pool vocab st n)"
  shows "int (length (sorted_list_of_set (set chosen \<union> used_base vocab st n)))
     = (if exhausted vocab st n then n else int (card (used_of st)) + n)"
proof -
  have disj: "set chosen \<inter> used_base vocab st n = {}"
    using assms(4) pool_avoids_used [of vocab st n] by blast
  have "length (sorted_list_of_set (set chosen \<union> used_base vocab st n))
      = card (set chosen \<union> used_base vocab st n)"
    by simp
  also have "\<dots> = card (set chosen) + card (used_base vocab st n)"
    using disj finite_used_base by (simp add: card_Un_disjoint)
  also have "card (set chosen) = nat n"
    using assms(1,3) by (simp add: distinct_card)
  finally show ?thesis using assms(2) by (simp add: used_base_def)
qed

text \<open>
  Claim C2. For a positive \<open>n\<close>: when the list has at least \<open>n\<close> entries the selection
  returns; when moreover fewer than \<open>n\<close> indices are unused, the draw is made from all
  indices and the new used set is exactly what was drawn; and the selection fails if and
  only if the list has fewer than \<open>n\<close> entries.
\<close>

theorem pick_words_never_exhausted:
  assumes "0 < n"
  shows "(n \<le> int (length vocab) \<longrightarrow>
            (\<exists>words st'. pick_words rnd today vocab st n = Inr (words, st')))
    \<and> (n \<le> int (length vocab) \<and> int (length (available vocab st)) < n \<longrightarrow>
          (\<exists>chosen st'.
              random_sample rnd (all_idxs vocab) n = Inr chosen
            \<and> pick_words rnd today vocab st n = Inr (map (\<lambda>i. vocab ! nat i) chosen, st')
            \<and> st_used st' = Some (sorted_list_of_set (set chosen))))
    \<and> ((\<exists>e. pick_words rnd today vocab st n = Inl e) \<longleftrightarrow> int (length vocab) < n)"
proof (intro conjI impI)
  from assms have n0: "0 \<le> n" by simp
  show "\<exists>words st'. pick_words rnd today vocab st n = Inr (words, st')"
    if "n \<le> int (length vocab)"
    using pick_words_result [OF n0 that, of rnd st today] by metis
  show "\<exists>chosen st'.
      random_sample rnd (all_idxs vocab) n = Inr chosen
    \<and> pick_words rnd today vocab st n = Inr (map (\<lambda>i. vocab ! nat i) chosen, st')
    \<and> st_used st' = Some (sorted_list_of_set (set chosen))"
    if h: "n \<le> int (length vocab) \<and> int (length (available vocab st)) < n"
  proof -
    from h have ex: "exhausted vocab st n" by (simp add: exhausted_def)
    then have p: "pool vocab st n = all_idxs vocab" "used_base vocab st n = {}"
      by (simp_all add: pool_def used_base_def)
    from h have le: "n \<le> int (length vocab)" by simp
    from pick_words_result [OF n0 le, of rnd st today] obtain chosen where
      "random_sample rnd (pool vocab st n) n = Inr chosen"
      "pick_words rnd today vocab st n =
         Inr (map (\<lambda>i. vocab ! nat i) chosen,
              st\<lparr>st_used := Some (sorted_list_of_set (set chosen \<union> used_base vocab st n)),
                 st_last_sent := Some today\<rparr>)"
      by metis
    then show ?thesis by (simp add: p)
  qed
  show "(\<exists>e. pick_words rnd today vocab st n = Inl e) \<longleftrightarrow> int (length vocab) < n"
  proof
    assume "\<exists>e. pick_words rnd today vocab st n = Inl e"
    then obtain e where e: "pick_words rnd today vocab st n = Inl e" ..
    show "int (length vocab) < n"
    proof (rule ccontr)
      assume "\<not> int (length vocab) < n"
      then have "n \<le> int (length vocab)" by simp
      from pick_words_result [OF n0 this, of rnd st today] e show False by (metis sum.distinct(1))
    qed
  next
    assume "int (length vocab) < n"
    then have "int (length (pool vocab st n)) < n" by (rule length_pool_short)
    then have "random_sample rnd (pool vocab st n) n = Inl ValueError"
      by (simp add: random_sample_def)
    then show "\<exists>e. pick_words rnd today vocab st n = Inl e"
      by (simp add: pick_words_unfold)
  qed
qed

theorem pick_words_never_exhausted_witness:
  "(0::int) < 1 \<and> 1 \<le> int (length three_words)
   \<and> int (length (available three_words (used_state [0, 1, 2]))) < 1
   \<and> (\<exists>chosen st'.
          random_sample (\<lambda>t. 1) (all_idxs three_words) 1 = Inr chosen
        \<and> pick_words (\<lambda>t. 1) ''2024-01-01'' three_words (used_state [0, 1, 2]) 1
             = Inr (map (\<lambda>i. three_words ! nat i) chosen, st')
        \<and> st_used st' = Some (sorted_list_of_set (set chosen)))
   \<and> pick_words (\<lambda>t. 1) ''2024-01-01'' three_words (used_state [0, 1, 2]) 1
        = Inr ([word_row ''dos''],
               \<lparr>st_used = Some [1], st_last_sent = Some ''2024-01-01'',
                st_sent_hours = Some []\<rparr>)
   \<and> pick_words (\<lambda>t. 1) ''2024-01-01'' three_words (used_state []) 4 = Inl ValueError"
proof -
  let ?st = "used_state [0, 1, 2]"
  have h0: "(0::int) < 1" by simp
  have h1: "1 \<le> int (length three_words)" by (simp add: three_words_def)
  have h2: "int (length (available three_words ?st)) < 1" by code_simp
  note r = pick_words_never_exhausted [OF h0, of three_words "\<lambda>t. 1" "''2024-01-01''" ?st]
  from r have "1 \<le> int (length three_words) \<and> int (length (available three_words ?st)) < 1
      \<longrightarrow> (\<exists>chosen st'.
          random_sample (\<lambda>t. 1) (all_idxs three_words) 1 = Inr chosen
        \<and> pick_words (\<lambda>t. 1) ''2024-01-01'' three_words ?st 1
             = Inr (map (\<lambda>i. three_words ! nat i) chosen, st')
        \<and> st_used st' = Some (sorted_list_of_set (set chosen)))"
    by (elim conjE)
  moreover from h1 h2 have "1 \<le> int (length three_words)
      \<and> int (length (available three_words ?st)) < 1" ..
  ultimately have c: "\<exists>chosen st'.
          random_sample (\<lambda>t. 1) (all_idxs three_words) 1 = Inr chosen
        \<and> pick_words (\<lambda>t. 1) ''2024-01-01'' three_words ?st 1
             = Inr (map (\<lambda>i. three_words ! nat i) chosen, st')
        \<and> st_used st' = Some (sorted_list_of_set (set chosen))"
    by (rule mp)
  have p1: "pick_words (\<lambda>t. 1) ''2024-01-01'' three_words ?st 1
        = Inr ([word_row ''dos''],
               \<lparr>st_used = Some [1], st_last_sent = Some ''2024-01-01'',
                st_sent_hours = Some []\<rparr>)"
    by code_simp
  have p2: "pick_words (\<lambda>t. 1) ''2024-01-01'' three_words (used_state []) 4 = Inl ValueError"
    by code_simp
  show ?thesis
    by (intro conjI) (rule h0 h1 h2 c p1 p2)+
qed

text \<open>
  Claim C3. When \<open>0 \<le> n \<le> |vocab|\<close>, the selection returns the entries at the indices
  drawn, in the order drawn: \<open>n\<close> of them, at distinct indices of the list. The new used
  list holds the used set as lines 97-99 left it (emptied by a reset, the old one
  otherwise) together with the indices drawn; its size is \<open>n\<close> after a reset and the old
  size plus \<open>n\<close> otherwise.
\<close>

theorem pick_words_returns_n_entries:
  assumes "0 \<le> n" and "n \<le> int (length vocab)"
  shows "\<exists>chosen st' u.
      random_sample rnd (pool vocab st n) n = Inr chosen
    \<and> pick_words rnd today vocab st n = Inr (map (\<lambda>i. vocab ! nat i) chosen, st')
    \<and> int (length (map (\<lambda>i. vocab ! nat i) chosen)) = n
    \<and> distinct chosen
    \<and> set chosen \<subseteq> {0..<int (length vocab)}
    \<and> st_used st' = Some u
    \<and> set u = used_base vocab st n \<union> set chosen
    \<and> int (length u) = (if exhausted vocab st n then n else int (card (used_of st)) + n)"
proof -
  from assms obtain chosen where c:
    "random_sample rnd (pool vocab st n) n = Inr chosen"
    "length chosen = nat n" "distinct chosen" "set chosen \<subseteq> set (pool vocab st n)"
    "pick_words rnd today vocab st n =
       Inr (map (\<lambda>i. vocab ! nat i) chosen,
            st\<lparr>st_used := Some (sorted_list_of_set (set chosen \<union> used_base vocab st n)),
               st_last_sent := Some today\<rparr>)"
    by (rule pick_words_result)
  let ?u = "sorted_list_of_set (set chosen \<union> used_base vocab st n)"
  let ?st = "st\<lparr>st_used := Some ?u, st_last_sent := Some today\<rparr>"
  have len: "int (length (map (\<lambda>i. vocab ! nat i) chosen)) = n"
    using c(2) assms(1) by simp
  have range: "set chosen \<subseteq> {0..<int (length vocab)}"
    using c(4) pool_in_range [of vocab st n] by blast
  have u1: "st_used ?st = Some ?u" by simp
  have u2: "set ?u = used_base vocab st n \<union> set chosen"
    using finite_used_base [of vocab st n] by auto
  have u3: "int (length ?u) = (if exhausted vocab st n then n else int (card (used_of st)) + n)"
    using c(2) assms(1) c(3) c(4) by (rule new_used_size)
  from c(1) c(5) len c(3) range u1 u2 u3 show ?thesis by blast
qed

theorem pick_words_returns_n_entries_witness:
  "(0::int) \<le> 2 \<and> 2 \<le> int (length three_words)
   \<and> (\<exists>chosen st' u.
        random_sample (\<lambda>t. 2) (pool three_words (used_state [0, 1]) 2) 2 = Inr chosen
      \<and> pick_words (\<lambda>t. 2) ''2024-01-01'' three_words (used_state [0, 1]) 2
           = Inr (map (\<lambda>i. three_words ! nat i) chosen, st')
      \<and> int (length (map (\<lambda>i. three_words ! nat i) chosen)) = 2
      \<and> distinct chosen
      \<and> set chosen \<subseteq> {0..<int (length three_words)}
      \<and> st_used st' = Some u
      \<and> set u = used_base three_words (used_state [0, 1]) 2 \<union> set chosen
      \<and> int (length u) = (if exhausted three_words (used_state [0, 1]) 2 then 2
                           else int (card (used_of (used_state [0, 1]))) + 2))
   \<and> exhausted three_words (used_state [0, 1]) 2
   \<and> pick_words (\<lambda>t. 2) ''2024-01-01'' three_words (used_state [0, 1]) 2
        = Inr ([word_row ''tres'', word_row ''uno''],
               \<lparr>st_used = Some [0, 2], st_last_sent = Some ''2024-01-01'',
                st_sent_hours = Some []\<rparr>)
   \<and> \<not> exhausted three_words (used_state [1]) 2
   \<and> pick_words (\<lambda>t. 2) ''2024-01-01'' three_words (used_state [1]) 2
        = Inr ([word_row ''uno'', word_row ''tres''],
               \<lparr>st_used = Some [0, 1, 2], st_last_sent = Some ''2024-01-01'',
                st_sent_hours = Some []\<rparr>)"
proof -
  have h1: "(0::int) \<le> 2" by simp
  have h2: "2 \<le> int (length three_words)" by (simp add: three_words_def)
  note r = pick_words_returns_n_entries [OF h1 h2, of "\<lambda>t. 2" "used_state [0, 1]" "''2024-01-01''"]
  have e1: "exhausted three_words (used_state [0, 1]) 2" by code_simp
  have p1: "pick_words (\<lambda>t. 2) ''2024-01-01'' three_words (used_state [0, 1]) 2
        = Inr ([word_row ''tres'', word_row ''uno''],
               \<lparr>st_used = Some [0, 2], st_last_sent = Some ''2024-01-01'',
                st_sent_hours = Some []\<rparr>)"
    by code_simp
  have e2: "\<not> exhausted three_words (used_state [1]) 2" by code_simp
  have p2: "pick_words (\<lambda>t. 2) ''2024-01-01'' three_words (used_state [1]) 2
        = Inr ([word_row ''uno'', word_row ''tres''],
               \<lparr>st_used = Some [0, 1, 2], st_last_sent = Some ''2024-01-01'',
                st_sent_hours = Some []\<rparr>)"
    by code_simp
  show ?thesis
    by (intro conjI) (rule h1 h2 r e1 p1 e2 p2)+
qed

text \<open>
  Claim C6, as amended. The selection changes two components of the state, the used list
  and the last-sent marker, which line 104 sets to today's date; the record of sent hours
  is left as it was. It performs no save: its only result is the words and the new state.
\<close>

theorem pick_words_touches_used_and_last_sent:
  assumes "pick_words rnd today vocab st n = Inr (words, st')"
  shows "st_sent_hours st' = st_sent_hours st
    \<and> st_last_sent st' = Some today
    \<and> st' = st\<lparr>st_used := st_used st', st_last_sent := Some today\<rparr>"
  using assms by (auto simp: pick_words_unfold split: sum.splits)

theorem pick_words_touches_used_and_last_sent_witness:
  "pick_words (\<lambda>t. 0) ''2024-02-02'' three_words (used_state [2]) 1
     = Inr ([word_row ''uno''],
            \<lparr>st_used = Some [0, 2], st_last_sent = Some ''2024-02-02'', st_sent_hours = Some []\<rparr>)
   \<and> st_sent_hours \<lparr>st_used = Some [0, 2], st_last_sent = Some ''2024-02-02'',
         st_sent_hours = Some []\<rparr> = st_sent_hours (used_state [2])
   \<and> st_last_sent \<lparr>st_used = Some [0, 2], st_last_sent = Some ''2024-02-02'',
         st_sent_hours = Some []\<rparr> = Some ''2024-02-02''"
proof -
  have p: "pick_words (\<lambda>t. 0) ''2024-02-02'' three_words (used_state [2]) 1
     = Inr ([word_row ''uno''],
            \<lparr>st_used = Some [0, 2], st_last_sent = Some ''2024-02-02'', st_sent_hours = Some []\<rparr>)"
    by code_simp
  note r = pick_words_touches_used_and_last_sent [OF p]
  from r have a: "st_sent_hours \<lparr>st_used = Some [0, 2], st_last_sent = Some ''2024-02-02'',
         st_sent_hours = Some []\<rparr> = st_sent_hours (used_state [2])"
    by (elim conjE)
  from r have b: "st_last_sent \<lparr>st_used = Some [0, 2], st_last_sent = Some ''2024-02-02'',
         st_sent_hours = Some []\<rparr> = Some ''2024-02-02''"
    by (elim conjE)
  show ?thesis
    by (intro conjI) (rule p a b)+
qed

text \<open>
  Claim C6 as it is written has the last-sent marker unchanged. On a fresh state, whose
  marker is \<open>None\<close>, the selection of one word returns a state whose marker is the date.
\<close>

theorem pick_words_keeps_last_sent_counterexample:
  "pick_words (\<lambda>t. 0) ''2024-01-01'' [word_row ''ola''] (used_state []) 1
     = Inr ([word_row ''ola''],
            \<lparr>st_used = Some [0], st_last_sent = Some ''2024-01-01'', st_sent_hours = Some []\<rparr>)
   \<and> st_last_sent (used_state []) = None
   \<and> st_last_sent \<lparr>st_used = Some [0], st_last_sent = Some ''2024-01-01'',
        st_sent_hours = Some []\<rparr> \<noteq> st_last_sent (used_state [])"
  by code_simp

section \<open>The message for one word\<close>

text \<open>The positions at which a string occurs in another one.\<close>

definition occurs_at :: "string \<Rightarrow> string \<Rightarrow> nat \<Rightarrow> bool" where
  "occurs_at p xs k = (k + length p \<le> length xs \<and> take (length p) (drop k xs) = p)"

definition occurrences :: "string \<Rightarrow> string \<Rightarrow> nat list" where
  "occurrences p xs = filter (occurs_at p xs) [0..<Suc (length xs)]"

text \<open>The text that the message must hold for the word of \<^const>\<open>demo_row\<close>.\<close>

definition demo_entry_text :: string where
  "demo_entry_text = ''1. ola [interj] '' @ em_dash @ '' hi''"

lemma occurs_at_append: "occurs_at p (a @ p @ c) (length a)"
  by (simp add: occurs_at_def)

lemma occurrences_append: "length a \<in> set (occurrences p (a @ p @ c))"
proof -
  have "length a \<in> set [0..<Suc (length (a @ p @ c))]"
    by (simp del: upt_Suc)
  with occurs_at_append [of p a c] show ?thesis
    unfolding occurrences_def by (simp del: upt_Suc)
qed

lemma demo_message_value:
  "format_message ''2024-01-01'' [demo_row] =
     Inr (header ''2024-01-01'' @ nl @ nl @ demo_entry_text @ nl @ ''   '' @ hook_arrow
            @ '' Ej.: '' @ [CHR 0xC2, CHR 0xA1] @ ''Ola!'' @ nl @ footer)"
  by code_simp

text \<open>
  Claim C7, as amended. For the single entry with headword \<open>ola\<close>, part of speech
  \<open>interj\<close>, translation \<open>hi\<close> and the example, and the date 2024-01-01, the message
  holds the date string and the text \<open>1. ola [interj] - hi\<close> (with the em dash), the date
  string before the text of the entry.
\<close>

theorem format_message_date_then_entry:
  "\<exists>a b c. format_message ''2024-01-01'' [demo_row]
      = Inr (a @ ''2024-01-01'' @ b @ demo_entry_text @ c)"
proof -
  let ?a = "[CHR 0xF0, CHR 0x9F, CHR 0x93, CHR 0x9A] @ '' Palabras del d''
      @ [CHR 0xC3, CHR 0xAD] @ ''a (''"
  let ?b = "''):'' @ nl @ nl"
  let ?c = "nl @ ''   '' @ hook_arrow @ '' Ej.: '' @ [CHR 0xC2, CHR 0xA1] @ ''Ola!'' @ nl @ footer"
  have "format_message ''2024-01-01'' [demo_row]
      = Inr (?a @ ''2024-01-01'' @ ?b @ demo_entry_text @ ?c)"
    by (simp add: demo_message_value header_def)
  then show ?thesis by blast
qed

text \<open>
  Claim C7 as it is written has the text of the entry before the date string. The date
  occurs once in the message, at byte 24 in the header, and the text of the entry once, at
  byte 38: no occurrence of the entry is followed by one of the date.
\<close>

theorem format_message_entry_then_date_counterexample:
  "\<not> (\<exists>a b c. format_message ''2024-01-01'' [demo_row]
      = Inr (a @ demo_entry_text @ b @ ''2024-01-01'' @ c))"
proof
  assume "\<exists>a b c. format_message ''2024-01-01'' [demo_row]
      = Inr (a @ demo_entry_text @ b @ ''2024-01-01'' @ c)"
  then obtain a b c where eq: "format_message ''2024-01-01'' [demo_row]
      = Inr (a @ demo_entry_text @ b @ ''2024-01-01'' @ c)"
    by blast
  let ?out = "a @ demo_entry_text @ b @ ''2024-01-01'' @ c"
  have only: "occurrences ''2024-01-01'' ?out = [24]"
  proof -
    have "(case format_message ''2024-01-01'' [demo_row] of
             Inl e \<Rightarrow> [] | Inr out \<Rightarrow> occurrences ''2024-01-01'' out) = [24]"
      by code_simp
    then show ?thesis by (simp add: eq)
  qed
  have first: "occurrences demo_entry_text ?out = [38]"
  proof -
    have "(case format_message ''2024-01-01'' [demo_row] of
             Inl e \<Rightarrow> [] | Inr out \<Rightarrow> occurrences demo_entry_text out) = [38]"
      by code_simp
    then show ?thesis by (simp add: eq)
  qed
  have "length (a @ demo_entry_text @ b) \<in> set (occurrences ''2024-01-01'' ?out)"
    using occurrences_append [of "a @ demo_entry_text @ b" "''2024-01-01''" c] by simp
  with only have d: "length a + length demo_entry_text + length b = 24" by simp
  have "length a \<in> set (occurrences demo_entry_text ?out)"
    using occurrences_append [of a demo_entry_text "b @ ''2024-01-01'' @ c"] by simp
  with first have "length a = 38" by simp
  with d show False by simp
qed

section \<open>Delivery and the end of a run\<close>

text \<open>
  Whether a run called a backend (it skipped it or made the request), whether it saved
  the state, and whether the HTTP call of a backend raises: the backend has its
  credentials and \<^verbatim>\<open>urlopen\<close> fails.
\<close>

fun is_telegram :: "event \<Rightarrow> bool" where
  "is_telegram Telegram_skipped = True"
| "is_telegram (Telegram_request msg) = True"
| "is_telegram e = False"

fun is_twilio :: "event \<Rightarrow> bool" where
  "is_twilio Twilio_skipped = True"
| "is_twilio (Twilio_request msg) = True"
| "is_twilio e = False"

fun is_save :: "event \<Rightarrow> bool" where
  "is_save (State_saved st) = True"
| "is_save e = False"

definition telegram_called :: "world \<Rightarrow> bool" where
  "telegram_called w = list_ex is_telegram (fst (main w))"

definition twilio_called :: "world \<Rightarrow> bool" where
  "twilio_called w = list_ex is_twilio (fst (main w))"

definition state_saved :: "world \<Rightarrow> bool" where
  "state_saved w = list_ex is_save (fst (main w))"

definition telegram_raises :: "world \<Rightarrow> bool" where
  "telegram_raises w = (telegram_configured w \<and> \<not> telegram_up w)"

definition twilio_raises :: "world \<Rightarrow> bool" where
  "twilio_raises w = (twilio_configured w \<and> \<not> twilio_up w)"

lemma deliver_and_save_trace:
  "deliver_and_save w msg st sh d h =
     (if telegram_raises w then ([Telegram_request msg], Crashed URLError)
      else if twilio_raises w then
        (fst (send_telegram w msg) @ [Twilio_request msg], Crashed URLError)
      else
        (fst (send_telegram w msg) @ fst (send_twilio_whatsapp w msg)
           @ [State_saved (st\<lparr>st_sent_hours := Some (AList.update d
                (sorted_list_of_set (insert h (set (hours_on sh d)))) sh)\<rparr>)], Done))"
  by (simp add: deliver_and_save_def send_telegram_def send_twilio_whatsapp_def
        telegram_raises_def twilio_raises_def Let_def)

lemma send_events:
  "list_ex is_telegram (fst (send_telegram w msg))"
  "\<not> list_ex is_twilio (fst (send_telegram w msg))"
  "\<not> list_ex is_save (fst (send_telegram w msg))"
  "list_ex is_twilio (fst (send_twilio_whatsapp w msg))"
  "\<not> list_ex is_save (fst (send_twilio_whatsapp w msg))"
  by (simp_all add: send_telegram_def send_twilio_whatsapp_def)

lemma main_delivery:
  assumes "telegram_called w"
  obtains msg st sh d h where "main w = deliver_and_save w msg st sh d h"
  using assms
  by (auto simp: telegram_called_def main_unfold after_guard_def Let_def
        split: if_splits sum.splits prod.splits)

lemma delivery_outcomes:
  assumes "telegram_called w"
  shows "telegram_raises w \<Longrightarrow>
           \<not> twilio_called w \<and> \<not> state_saved w \<and> snd (main w) = Crashed URLError"
    and "\<not> telegram_raises w \<Longrightarrow> twilio_called w"
    and "\<not> telegram_raises w \<Longrightarrow> twilio_raises w \<Longrightarrow>
           \<not> state_saved w \<and> snd (main w) = Crashed URLError"
    and "\<not> telegram_raises w \<Longrightarrow> \<not> twilio_raises w \<Longrightarrow>
           state_saved w \<and> snd (main w) = Done"
proof -
  from assms obtain msg st sh d h where m: "main w = deliver_and_save w msg st sh d h"
    by (rule main_delivery)
  show "telegram_raises w \<Longrightarrow>
           \<not> twilio_called w \<and> \<not> state_saved w \<and> snd (main w) = Crashed URLError"
    by (simp add: twilio_called_def state_saved_def m deliver_and_save_trace)
  show "\<not> telegram_raises w \<Longrightarrow> twilio_called w"
    by (simp add: twilio_called_def m deliver_and_save_trace send_events)
  show "\<not> telegram_raises w \<Longrightarrow> twilio_raises w \<Longrightarrow>
           \<not> state_saved w \<and> snd (main w) = Crashed URLError"
    by (simp add: state_saved_def m deliver_and_save_trace send_events)
  show "\<not> telegram_raises w \<Longrightarrow> \<not> twilio_raises w \<Longrightarrow>
           state_saved w \<and> snd (main w) = Done"
    by (simp add: state_saved_def m deliver_and_save_trace send_events)
qed




lemma entry_lines_ok:
  "(\<And>r. r \<in> set ws \<Longrightarrow> has_headword r) \<Longrightarrow> \<exists>ls. entry_lines i ws = Inr ls"
proof (induction ws arbitrary: i)
  case Nil
  then show ?case by simp
next
  case (Cons r rs)
  have "has_headword r" using Cons.prems by simp
  then obtain v where v: "map_of r ''es'' = Some v"
    by (auto simp: has_headword_def split: option.splits)
  from Cons.IH [of "Suc i"] Cons.prems obtain ls where "entry_lines (Suc i) rs = Inr ls"
    by auto
  with v show ?case by (simp add: Let_def)
qed

lemma format_message_ok:
  "(\<And>r. r \<in> set ws \<Longrightarrow> has_headword r) \<Longrightarrow> \<exists>msg. format_message today ws = Inr msg"
  using entry_lines_ok [of ws 1] by (auto simp: format_message_def)

lemma permitted_main: "permitted w \<Longrightarrow> main w = after_guard w"
  by (auto simp: permitted_iff main_unfold)

lemma after_guard_too_small:
  "int (length (load_vocab (csv_rows w))) < N_WORDS w \<Longrightarrow> after_guard w = ([], Exit_too_small)"
  by (simp add: after_guard_def)

lemma after_guard_delivers:
  assumes "0 \<le> N_WORDS w" and "N_WORDS w \<le> int (length (load_vocab (csv_rows w)))"
  shows "\<exists>msg st sh d h. after_guard w = deliver_and_save w msg st sh d h"
proof -
  let ?vocab = "load_vocab (csv_rows w)"
  let ?st = "load_state (state_file w)"
  from assms obtain chosen where c:
    "set chosen \<subseteq> set (pool ?vocab ?st (N_WORDS w))"
    "pick_words (entropy w) (local_today w) ?vocab ?st (N_WORDS w) =
       Inr (map (\<lambda>i. ?vocab ! nat i) chosen,
            ?st\<lparr>st_used := Some (sorted_list_of_set
                     (set chosen \<union> used_base ?vocab ?st (N_WORDS w))),
                 st_last_sent := Some (local_today w)\<rparr>)"
    by (rule pick_words_result)
  have "has_headword r" if "r \<in> set (map (\<lambda>i. ?vocab ! nat i) chosen)" for r
  proof -
    from that obtain i where i: "i \<in> set chosen" and r: "r = ?vocab ! nat i" by auto
    from i c(1) pool_in_range [of ?vocab ?st "N_WORDS w"]
    have "0 \<le> i \<and> i < int (length ?vocab)" by auto
    then have "nat i < length ?vocab" by (simp add: nat_less_iff)
    then have "?vocab ! nat i \<in> set ?vocab" by (rule nth_mem)
    with r show ?thesis by (simp add: load_vocab_def)
  qed
  then obtain msg where
    "format_message (local_today w) (map (\<lambda>i. ?vocab ! nat i) chosen) = Inr msg"
    using format_message_ok by blast
  with c(2) assms(2) have "after_guard w =
      deliver_and_save w msg
        (?st\<lparr>st_used := Some (sorted_list_of_set
                  (set chosen \<union> used_base ?vocab ?st (N_WORDS w))),
              st_last_sent := Some (local_today w)\<rparr>)
        (sent_hours_of ?st) (guard_date w) (guard_hour w)"
    by (simp add: after_guard_def Let_def)
  then show ?thesis by blast
qed

lemma deliver_and_save_calls_telegram:
  "list_ex is_telegram (fst (deliver_and_save w msg st sh d h))"
  using send_events(1) [of w msg]
  by (simp add: deliver_and_save_trace send_telegram_def telegram_raises_def)

text \<open>
  Claim C5, as amended. Take a run that the guard lets through, so that the list is
  loaded. When the list is smaller than \<open>N_WORDS\<close>, the run ends at line 135 with a
  status that is not zero, having called no backend and saved nothing: the state file is
  as before. Otherwise, when \<open>N_WORDS\<close> is not negative and no backend raises, the run
  calls both backends, saves the state and exits with status zero.
\<close>

theorem too_small_list_exits_before_sending:
  assumes "permitted w"
  shows "(int (length (load_vocab (csv_rows w))) < N_WORDS w \<longrightarrow>
            main w = ([], Exit_too_small)
          \<and> exit_code (snd (main w)) \<noteq> 0
          \<and> \<not> telegram_called w \<and> \<not> twilio_called w \<and> \<not> state_saved w
          \<and> persisted (state_file w) (fst (main w)) = state_file w)
    \<and> (N_WORDS w \<le> int (length (load_vocab (csv_rows w))) \<and> 0 \<le> N_WORDS w
          \<and> \<not> telegram_raises w \<and> \<not> twilio_raises w \<longrightarrow>
            snd (main w) = Done
          \<and> exit_code (snd (main w)) = 0
          \<and> telegram_called w \<and> twilio_called w \<and> state_saved w)"
proof (intro conjI impI)
  assume small: "int (length (load_vocab (csv_rows w))) < N_WORDS w"
  show m: "main w = ([], Exit_too_small)"
    using assms small by (simp add: permitted_main after_guard_too_small)
  show "exit_code (snd (main w)) \<noteq> 0" by (simp add: m)
  show "\<not> telegram_called w" by (simp add: telegram_called_def m)
  show "\<not> twilio_called w" by (simp add: twilio_called_def m)
  show "\<not> state_saved w" by (simp add: state_saved_def m)
  show "persisted (state_file w) (fst (main w)) = state_file w" by (simp add: m)
next
  assume h: "N_WORDS w \<le> int (length (load_vocab (csv_rows w))) \<and> 0 \<le> N_WORDS w
      \<and> \<not> telegram_raises w \<and> \<not> twilio_raises w"
  then have "\<exists>msg st sh d h. after_guard w = deliver_and_save w msg st sh d h"
    by (intro after_guard_delivers) simp_all
  then obtain msg st sh d hr where "main w = deliver_and_save w msg st sh d hr"
    using assms by (auto simp: permitted_main)
  then have tc: "telegram_called w"
    by (simp add: telegram_called_def deliver_and_save_calls_telegram)
  note o = delivery_outcomes [OF tc]
  from h have nt: "\<not> telegram_raises w" and nw: "\<not> twilio_raises w" by simp_all
  show "telegram_called w" by (rule tc)
  show "twilio_called w" using nt by (rule o(2))
  show d: "snd (main w) = Done" using o(4) [OF nt nw] by simp
  show "state_saved w" using o(4) [OF nt nw] by simp
  show "exit_code (snd (main w)) = 0" by (simp add: d)
qed

theorem too_small_list_exits_before_sending_witness:
  "permitted (demo_world\<lparr>N_WORDS := 3\<rparr>)
   \<and> int (length (load_vocab (csv_rows (demo_world\<lparr>N_WORDS := 3\<rparr>))))
        < N_WORDS (demo_world\<lparr>N_WORDS := 3\<rparr>)
   \<and> main (demo_world\<lparr>N_WORDS := 3\<rparr>) = ([], Exit_too_small)
   \<and> exit_code (snd (main (demo_world\<lparr>N_WORDS := 3\<rparr>))) \<noteq> 0
   \<and> permitted demo_world
   \<and> N_WORDS demo_world \<le> int (length (load_vocab (csv_rows demo_world)))
   \<and> exit_code (snd (main demo_world)) = 0
   \<and> telegram_called demo_world \<and> twilio_called demo_world \<and> state_saved demo_world"
proof -
  let ?v = "demo_world\<lparr>N_WORDS := 3\<rparr>"
  have p1: "permitted ?v" by code_simp
  have s1: "int (length (load_vocab (csv_rows ?v))) < N_WORDS ?v" by code_simp
  have p2: "permitted demo_world" by code_simp
  have s2: "N_WORDS demo_world \<le> int (length (load_vocab (csv_rows demo_world)))" by code_simp
  have s3: "0 \<le> N_WORDS demo_world" by code_simp
  have s4: "\<not> telegram_raises demo_world" by code_simp
  have s5: "\<not> twilio_raises demo_world" by code_simp
  note r1 = too_small_list_exits_before_sending [OF p1]
  note r2 = too_small_list_exits_before_sending [OF p2]
  from r1 s1 have c1: "main ?v = ([], Exit_too_small)"
    and c2: "exit_code (snd (main ?v)) \<noteq> 0"
    by simp_all
  from r2 s2 s3 s4 s5 have c3: "exit_code (snd (main demo_world)) = 0"
    and c4: "telegram_called demo_world" and c5: "twilio_called demo_world"
    and c6: "state_saved demo_world"
    by simp_all
  show ?thesis
    by (intro conjI) (rule p1 s1 c1 c2 p2 s2 c3 c4 c5 c6)+
qed

text \<open>
  Claim C5 as it is written has every run with a large enough list exit with status zero
  after both deliveries and the save. With the first request failing, the run has a list
  of the size asked for, and ends with status 1 without calling the second backend or
  saving.
\<close>

theorem failed_delivery_exit_counterexample:
  "permitted (demo_world\<lparr>telegram_up := False, twilio_configured := True, twilio_up := True\<rparr>)
   \<and> N_WORDS (demo_world\<lparr>telegram_up := False, twilio_configured := True, twilio_up := True\<rparr>)
        \<le> int (length (load_vocab (csv_rows
              (demo_world\<lparr>telegram_up := False, twilio_configured := True, twilio_up := True\<rparr>))))
   \<and> exit_code (snd (main
          (demo_world\<lparr>telegram_up := False, twilio_configured := True, twilio_up := True\<rparr>))) = 1
   \<and> \<not> twilio_called
          (demo_world\<lparr>telegram_up := False, twilio_configured := True, twilio_up := True\<rparr>)
   \<and> \<not> state_saved
          (demo_world\<lparr>telegram_up := False, twilio_configured := True, twilio_up := True\<rparr>)"
  by code_simp

end
